theory Spec2Isabelle
  imports Main
begin

section \<open>C library fragments used by the supervisor\<close>

text \<open>
  The supervisor (\<^verbatim>\<open>init_main_v3.c\<close>) is a C program over a global process table.
  C strings are modelled as \<^typ>\<open>string\<close> without the terminating NUL, C \<^verbatim>\<open>int\<close> and
  \<^verbatim>\<open>pid_t\<close> values as \<^typ>\<open>int\<close>; the one product the program computes on them, in
  \<^verbatim>\<open>set_resource_limits\<close>, has its 32-bit wrap-around written out. Input that overruns
  a buffer (a line field of 256 characters or more) or the range of \<^verbatim>\<open>int\<close> has no
  defined behaviour in C: the functions below are total, and the statements that depend
  on such input carry the bounds (\<open>line_in_bounds\<close>, \<open>strings_ok\<close>) as hypotheses.
\<close>

definition newline :: char where
  "newline = CHR 0x0A"

definition isspace :: "char \<Rightarrow> bool" where
  "isspace c = (c \<in> set [CHR '' '', CHR 0x09, CHR 0x0A, CHR 0x0B, CHR 0x0C, CHR 0x0D])"

definition isdigit :: "char \<Rightarrow> bool" where
  "isdigit c = (c \<in> set ''0123456789'')"

text \<open>Decimal output, as \<^verbatim>\<open>%d\<close> in \<^verbatim>\<open>printf\<close> prints it.\<close>

definition digit_char :: "nat \<Rightarrow> char" where
  "digit_char d = ''0123456789'' ! d"

function show_nat :: "nat \<Rightarrow> string" where
  "show_nat n = (if n < 10 then [digit_char n] else show_nat (n div 10) @ [digit_char (n mod 10)])"
  by pat_completeness auto
termination
  by (relation "measure id") auto

declare show_nat.simps [simp del]

definition show_int :: "int \<Rightarrow> string" where
  "show_int i = (if i < 0 then CHR ''-'' # show_nat (nat (- i)) else show_nat (nat i))"

text \<open>Decimal input, as \<^verbatim>\<open>%d\<close> in \<^verbatim>\<open>scanf\<close> reads it: leading white space is skipped,
  then an optional sign and a non-empty run of digits. The result is the remaining input
  too. The value is the mathematical one: it is what the program gets for a number in
  the range of \<^verbatim>\<open>int\<close> (\<open>int_ok\<close> below) and only then; beyond that range the
  conversion is undefined in C.\<close>

fun digits_val :: "int \<Rightarrow> string \<Rightarrow> int" where
  "digits_val acc [] = acc"
| "digits_val acc (c # cs) = digits_val (acc * 10 + (int (of_char c) - 48)) cs"

definition scan_int :: "string \<Rightarrow> (int \<times> string) option" where
  "scan_int s =
     (let s1 = dropWhile isspace s;
          neg = (s1 \<noteq> [] \<and> hd s1 = CHR ''-'');
          s2 = (if s1 \<noteq> [] \<and> (hd s1 = CHR ''-'' \<or> hd s1 = CHR ''+'') then tl s1 else s1);
          ds = takeWhile isdigit s2
      in if ds = [] then None
         else Some (if neg then - digits_val 0 ds else digits_val 0 ds, dropWhile isdigit s2))"

text \<open>The three kinds of directive of the format string of \<^verbatim>\<open>init_processes\<close>:
  \<^verbatim>\<open>%d\<close>, white space, and the scanset \<^verbatim>\<open>%[^\n]\<close> (a non-empty run of characters other
  than newline; it does not skip white space, and it has no width: the run is stored
  whatever its length, so it is what the program gets only when it fits the buffer
  passed, see \<open>item_in_bounds\<close> below). \<open>sscanf\<close> returns the converted items in
  order and stops at the first directive that fails; the C return value is the number
  of items (or the negative \<^verbatim>\<open>EOF\<close> when the input ends before the first conversion,
  which like 0 differs from every positive count).\<close>

datatype directive = Dir_int | Dir_space | Dir_not_newline

datatype scan_item = Item_int int | Item_str string

fun sscanf :: "directive list \<Rightarrow> string \<Rightarrow> scan_item list" where
  "sscanf [] s = []"
| "sscanf (Dir_space # ds) s = sscanf ds (dropWhile isspace s)"
| "sscanf (Dir_int # ds) s =
     (case scan_int s of
        None \<Rightarrow> []
      | Some (v, r) \<Rightarrow> Item_int v # sscanf ds r)"
| "sscanf (Dir_not_newline # ds) s =
     (let t = takeWhile (\<lambda>c. c \<noteq> newline) s
      in if t = [] then [] else Item_str t # sscanf ds (dropWhile (\<lambda>c. c \<noteq> newline) s))"

text \<open>\<^verbatim>\<open>fgets(line, n, f)\<close> reads at most \<open>n - 1\<close> characters and stops after a newline,
  which it keeps. \<open>fgets_one k s\<close> reads with \<open>k\<close> characters of room and returns the line
  and the rest of the file; \<open>fgets_lines n s\<close> is the sequence of lines that the loop
  \<^verbatim>\<open>while (fgets(line, n, f))\<close> sees on a file of content \<open>s\<close>.\<close>

fun fgets_one :: "nat \<Rightarrow> string \<Rightarrow> string \<times> string" where
  "fgets_one 0 s = ([], s)"
| "fgets_one (Suc k) [] = ([], [])"
| "fgets_one (Suc k) (c # cs) =
     (if c = newline then ([c], cs)
      else (case fgets_one k cs of (l, r) \<Rightarrow> (c # l, r)))"

function fgets_lines :: "nat \<Rightarrow> string \<Rightarrow> string list" where
  "fgets_lines n s =
     (if s = [] \<or> n \<le> 1 then []
      else fst (fgets_one (n - 1) s) # fgets_lines n (snd (fgets_one (n - 1) s)))"
  by pat_completeness auto
termination
proof (relation "measure (\<lambda>(n, s). length s)")
  show "wf (measure (\<lambda>(n, s). length s))" by simp
next
  fix n :: nat and s :: string
  assume a: "\<not> (s = [] \<or> n \<le> 1)"
  have le: "length (snd (fgets_one k r)) \<le> length r" for k r
  proof (induction k r rule: fgets_one.induct)
    case (3 k c cs)
    then show ?case by (cases "fgets_one k cs") auto
  qed auto
  from a obtain c cs k where s: "s = c # cs" and n: "n - 1 = Suc k"
    by (cases s; cases "n - 1") auto
  have "length (snd (fgets_one (Suc k) (c # cs))) < length (c # cs)"
    using le [of k cs] by (cases "fgets_one k cs") (auto simp: less_Suc_eq_le)
  then show "((n, snd (fgets_one (n - 1) s)), (n, s)) \<in> measure (\<lambda>(n, s). length s)"
    unfolding s n by simp
qed

declare fgets_lines.simps [simp del]

text \<open>\<^verbatim>\<open>strtok(strdup(s), delims)\<close> followed by \<^verbatim>\<open>strtok(NULL, delims)\<close> until \<^verbatim>\<open>NULL\<close>:
  the maximal non-empty runs of characters that are not delimiters, in order.\<close>

function strtok_list :: "string \<Rightarrow> string \<Rightarrow> string list" where
  "strtok_list delims s =
     (let s1 = dropWhile (\<lambda>c. c \<in> set delims) s
      in if s1 = [] then []
         else takeWhile (\<lambda>c. c \<notin> set delims) s1
              # strtok_list delims (drop 1 (dropWhile (\<lambda>c. c \<notin> set delims) s1)))"
  by pat_completeness auto
termination
proof (relation "measure (\<lambda>(d, s). length s)")
  show "wf (measure (\<lambda>(d, s). length s))" by simp
next
  fix delims s :: string and s1 :: string
  assume s1: "s1 = dropWhile (\<lambda>c. c \<in> set delims) s" and ne: "s1 \<noteq> []"
  have "length (drop 1 (dropWhile (\<lambda>c. c \<notin> set delims) s1)) < length s1"
  proof (cases s1)
    case Nil
    with ne show ?thesis by simp
  next
    case (Cons c cs)
    have "length (dropWhile (\<lambda>c. c \<notin> set delims) s1) \<le> length s1"
      by (rule length_dropWhile_le)
    then show ?thesis
      by (cases "dropWhile (\<lambda>c. c \<notin> set delims) s1") (auto simp: Cons)
  qed
  moreover have "length s1 \<le> length s"
    unfolding s1 by (rule length_dropWhile_le)
  ultimately show "((delims, drop 1 (dropWhile (\<lambda>c. c \<notin> set delims) s1)), (delims, s))
      \<in> measure (\<lambda>(d, s). length s)"
    by simp
qed

declare strtok_list.simps [simp del]

text \<open>\<^verbatim>\<open>snprintf(buf, n, ...)\<close> keeps at most \<open>n - 1\<close> characters of the formatted text;
  \<^verbatim>\<open>strncpy(dst, src, n)\<close> copies at most \<open>n\<close> characters. For a source shorter than
  \<open>n\<close> the destination then holds the source as a string. A source of \<open>n\<close> or more
  characters leaves the destination without terminator: \<open>strncpy\<close> returns the \<open>n\<close>
  characters copied, which is the content of the buffer but not the string that a later
  read of the field yields. Statements about stored strings assume sources shorter than
  the buffer.\<close>

definition snprintf :: "nat \<Rightarrow> string \<Rightarrow> string" where
  "snprintf n s = take (n - 1) s"

definition strncpy :: "nat \<Rightarrow> string \<Rightarrow> string" where
  "strncpy n src = take n src"

text \<open>The loop \<^verbatim>\<open>for (i = 0; i < n; i++) if (P(a[i])) { ...; break; }\<close> acts on the first
  index whose element satisfies \<open>P\<close>.\<close>

fun find_first :: "('a \<Rightarrow> bool) \<Rightarrow> 'a list \<Rightarrow> nat option" where
  "find_first P [] = None"
| "find_first P (x # xs) = (if P x then Some 0 else map_option Suc (find_first P xs))"


section \<open>The process table\<close>

definition MAX_PROCESSES :: nat where
  "MAX_PROCESSES = 10"

definition MAX_RUNLEVELS :: int where
  "MAX_RUNLEVELS = 5"

definition HEALTH_CHECK_INTERVAL :: nat where
  "HEALTH_CHECK_INTERVAL = 5"

definition SIGTERM :: int where
  "SIGTERM = 15"

definition SIGCHLD :: int where
  "SIGCHLD = 17"

text \<open>The C struct \<^verbatim>\<open>Process\<close>, field by field.\<close>

record Process =
  pid :: int
  command :: string
  runlevel :: int
  active :: bool
  dependencies :: string
  state :: string
  health_pipe :: "int \<times> int"
  memory_limit :: int
  cpu_limit :: int

text \<open>
  The globals \<^verbatim>\<open>processes\<close> (an array of \<open>MAX_PROCESSES\<close> slots), \<^verbatim>\<open>process_count\<close>
  (only ever set to 0 or incremented, hence a \<^typ>\<open>nat\<close>) and \<^verbatim>\<open>current_runlevel\<close>,
  together with what the program exchanges with its environment:
  the calls of \<^verbatim>\<open>log_message\<close> in order (\<open>audit_log\<close>: level and message; the rotation
  and the failure to open the log file do not change the table), the content of
  \<^verbatim>\<open>/etc/inittab\<close> (\<open>None\<close> when it cannot be opened), the values that the coming calls of
  \<^verbatim>\<open>fork\<close> return and the number of calls made, the signals sent with \<^verbatim>\<open>kill\<close>, the
  children waited for, the seconds slept, the lines printed, and the status of
  \<^verbatim>\<open>exit\<close> once called. Operations are taken one at a time: a signal handler that
  interrupts another operation is outside this model.
\<close>

record world =
  processes :: "Process list"
  process_count :: nat
  current_runlevel :: int
  audit_log :: "(string \<times> string) list"
  inittab :: "string option"
  fork_results :: "int list"
  fork_calls :: nat
  signals_sent :: "(int \<times> int) list"
  waited :: "int list"
  slept :: nat
  printed :: "string list"
  exit_status :: "int option"

text \<open>Static storage is zero-initialised.\<close>

definition zero_Process :: Process where
  "zero_Process = \<lparr>pid = 0, command = [], runlevel = 0, active = False, dependencies = [],
     state = [], health_pipe = (0, 0), memory_limit = 0, cpu_limit = 0\<rparr>"

definition init_world :: world where
  "init_world = \<lparr>processes = replicate MAX_PROCESSES zero_Process, process_count = 0,
     current_runlevel = 0, audit_log = [], inittab = None, fork_results = [], fork_calls = 0,
     signals_sent = [], waited = [], slept = 0, printed = [], exit_status = None\<rparr>"

text \<open>The records in use: the slots below \<^verbatim>\<open>process_count\<close>.\<close>

definition live :: "world \<Rightarrow> Process list" where
  "live s = take (process_count s) (processes s)"

definition log_message :: "string \<Rightarrow> string \<Rightarrow> world \<Rightarrow> world" where
  "log_message level message s = s\<lparr>audit_log := audit_log s @ [(level, message)]\<rparr>"

definition sleep :: "nat \<Rightarrow> world \<Rightarrow> world" where
  "sleep seconds s = s\<lparr>slept := slept s + seconds\<rparr>"

definition kill :: "int \<Rightarrow> int \<Rightarrow> world \<Rightarrow> world" where
  "kill p sig s = s\<lparr>signals_sent := signals_sent s @ [(p, sig)]\<rparr>"

definition waitpid :: "int \<Rightarrow> world \<Rightarrow> world" where
  "waitpid p s = s\<lparr>waited := waited s @ [p]\<rparr>"

definition printf :: "string \<Rightarrow> world \<Rightarrow> world" where
  "printf line s = s\<lparr>printed := printed s @ [line]\<rparr>"

text \<open>\<^verbatim>\<open>fork\<close> returns the next value the environment has for it, a negative one (failure)
  when none is left.\<close>

definition fork :: "world \<Rightarrow> int \<times> world" where
  "fork s =
     (case fork_results s of
        [] \<Rightarrow> (- 1, s\<lparr>fork_calls := Suc (fork_calls s)\<rparr>)
      | r # rs \<Rightarrow> (r, s\<lparr>fork_results := rs, fork_calls := Suc (fork_calls s)\<rparr>))"


section \<open>The operations of \<^verbatim>\<open>init_main_v3.c\<close>\<close>

subsection \<open>\<^verbatim>\<open>handle_signal\<close>\<close>

text \<open>One child reaped by \<^verbatim>\<open>waitpid(-1, NULL, WNOHANG)\<close>: the first record below
  \<^verbatim>\<open>process_count\<close> with that pid is logged, made inactive and set to \<^verbatim>\<open>"stopped"\<close>.\<close>

definition reap :: "int \<Rightarrow> world \<Rightarrow> world" where
  "reap p s =
     (case find_first (\<lambda>r. pid r = p) (live s) of
        None \<Rightarrow> s
      | Some i \<Rightarrow>
          (log_message ''INFO''
             (snprintf 512 (''Process '' @ command (processes s ! i) @ '' (PID '' @ show_int p
                @ '') finished'')) s)
          \<lparr>processes := (processes s)[i := (processes s ! i)\<lparr>active := False,
               state := strncpy 32 ''stopped''\<rparr>]\<rparr>)"

text \<open>The handler's loop. Its second argument is what the kernel has for the successive
  calls of \<^verbatim>\<open>waitpid\<close>: the pid and the wait status of each terminated child. The status
  pointer passed is \<^verbatim>\<open>NULL\<close>, so the status is never read. A pid that is not positive,
  or no child left, ends the loop.\<close>

fun reap_all :: "(int \<times> int) list \<Rightarrow> world \<Rightarrow> world" where
  "reap_all [] s = s"
| "reap_all ((p, status) # rest) s = (if p \<le> 0 then s else reap_all rest (reap p s))"

definition handle_signal :: "int \<Rightarrow> (int \<times> int) list \<Rightarrow> world \<Rightarrow> world" where
  "handle_signal sig children s = (if sig = SIGCHLD then reap_all children s else s)"

subsection \<open>\<^verbatim>\<open>check_all_dependencies_active\<close>\<close>

fun dependency_found :: "string \<Rightarrow> Process list \<Rightarrow> bool" where
  "dependency_found dep [] = False"
| "dependency_found dep (r # rs) =
     (if command r = dep \<and> state r = ''running'' then True else dependency_found dep rs)"

fun all_dependencies_found :: "string list \<Rightarrow> Process list \<Rightarrow> bool" where
  "all_dependencies_found [] rs = True"
| "all_dependencies_found (dep # deps) rs =
     (if \<not> dependency_found dep rs then False else all_dependencies_found deps rs)"

definition check_all_dependencies_active :: "string \<Rightarrow> world \<Rightarrow> bool" where
  "check_all_dependencies_active deps s =
     all_dependencies_found (strtok_list '','' deps) (live s)"

subsection \<open>\<^verbatim>\<open>set_resource_limits\<close>\<close>

text \<open>A C \<^verbatim>\<open>int\<close> result, wrapped to 32 bits in two's complement (what the usual targets
  compute where ISO C leaves signed overflow undefined).\<close>

definition c_int :: "int \<Rightarrow> int" where
  "c_int v = (v + 2 ^ 31) mod 2 ^ 32 - 2 ^ 31"

definition memory_limit_path :: string where
  "memory_limit_path = ''/sys/fs/cgroup/memory/my_cgroup/memory.limit_in_bytes''"

definition cpu_quota_path :: string where
  "cpu_quota_path = ''/sys/fs/cgroup/cpu/my_cgroup/cpu.cfs_quota_us''"

definition cgroup_procs_path :: string where
  "cgroup_procs_path = ''/sys/fs/cgroup/memory/my_cgroup/cgroup.procs''"

text \<open>\<^verbatim>\<open>f = fopen(path, ...); if (f) { fprintf(f, "%d", v); fclose(f); }\<close>: the text is
  written when the file can be opened. \<open>openable\<close> lists the paths that can; the result
  is the list of writes made, as path and text.\<close>

definition write_file :: "string list \<Rightarrow> string \<Rightarrow> string \<Rightarrow> (string \<times> string) list" where
  "write_file openable path text = (if path \<in> set openable then [(path, text)] else [])"

definition set_resource_limits ::
    "string list \<Rightarrow> int \<Rightarrow> int \<Rightarrow> int \<Rightarrow> (string \<times> string) list" where
  "set_resource_limits openable p mem cpu =
     write_file openable (snprintf 256 memory_limit_path) (show_int mem)
     @ write_file openable (snprintf 256 cpu_quota_path) (show_int (c_int (cpu * 10000)))
     @ write_file openable (snprintf 256 cgroup_procs_path) (show_int p)"

subsection \<open>\<^verbatim>\<open>start_process\<close>\<close>

text \<open>The C function returns \<^verbatim>\<open>void\<close>; the outcome names the \<^verbatim>\<open>return\<close> it leaves by.
  \<open>In_child\<close> is the branch \<^verbatim>\<open>pid == 0\<close>, taken in the new process only, which goes on
  to \<^verbatim>\<open>set_resource_limits\<close> and \<^verbatim>\<open>execl\<close> and never returns into the supervisor.\<close>

datatype start_outcome =
  Capacity_exceeded | Dependencies_unmet | Fork_failed | In_child | Started int

text \<open>The record the parent stores: the compound literal, then the two \<^verbatim>\<open>strncpy\<close>.
  Its strings are the arguments when these are shorter than 256 characters.\<close>

definition new_record :: "int \<Rightarrow> string \<Rightarrow> int \<Rightarrow> string \<Rightarrow> int \<Rightarrow> int \<Rightarrow> Process" where
  "new_record p cmd rl deps mem cpu =
     \<lparr>pid = p, command = strncpy 256 cmd, runlevel = rl, active = True,
      dependencies = strncpy 256 deps, state = ''running'', health_pipe = (0, 0),
      memory_limit = mem, cpu_limit = cpu\<rparr>"

definition start_process ::
    "string \<Rightarrow> int \<Rightarrow> string \<Rightarrow> int \<Rightarrow> int \<Rightarrow> world \<Rightarrow> start_outcome \<times> world" where
  "start_process cmd rl deps mem cpu s =
     (if process_count s \<ge> MAX_PROCESSES then
        (Capacity_exceeded, log_message ''ERROR'' ''Max processes reached'' s)
      else if \<not> check_all_dependencies_active deps s then
        (Dependencies_unmet,
         log_message ''WARNING''
           (snprintf 512 (''Cannot start '' @ cmd @ '': dependencies not satisfied'')) s)
      else
        (case fork s of (p, s1) \<Rightarrow>
           if p < 0 then (Fork_failed, log_message ''ERROR'' ''Failed to fork process'' s1)
           else if p = 0 then (In_child, s1)
           else
             (Started p,
              log_message ''INFO''
                (snprintf 512 (''Started process: '' @ cmd @ '' with PID: '' @ show_int p
                   @ '' for runlevel: '' @ show_int rl))
                (s1\<lparr>processes := (processes s1)[process_count s1 :=
                       new_record p cmd rl deps mem cpu],
                     process_count := Suc (process_count s1)\<rparr>))))"

subsection \<open>\<^verbatim>\<open>start_process_with_retry\<close>\<close>

text \<open>The loop \<^verbatim>\<open>for (attempt = 0; attempt < max_retries; attempt++)\<close>, by the number of
  attempts left.\<close>

fun retry_attempts ::
    "nat \<Rightarrow> string \<Rightarrow> int \<Rightarrow> string \<Rightarrow> int \<Rightarrow> int \<Rightarrow> world \<Rightarrow> bool \<times> world" where
  "retry_attempts 0 cmd rl deps mem cpu s =
     (False, log_message ''ERROR'' ''Failed to start process after retries'' s)"
| "retry_attempts (Suc n) cmd rl deps mem cpu s =
     (if check_all_dependencies_active deps s then
        (True, snd (start_process cmd rl deps mem cpu s))
      else retry_attempts n cmd rl deps mem cpu (sleep 1 s))"

definition start_process_with_retry ::
    "string \<Rightarrow> int \<Rightarrow> string \<Rightarrow> int \<Rightarrow> int \<Rightarrow> int \<Rightarrow> world \<Rightarrow> bool \<times> world" where
  "start_process_with_retry cmd rl deps mem cpu max_retries s =
     retry_attempts (nat max_retries) cmd rl deps mem cpu s"


subsection \<open>\<^verbatim>\<open>init_processes\<close>\<close>

text \<open>The format \<^verbatim>\<open>"%d %[^\n] %[^\n] %d %d"\<close>.\<close>

definition inittab_format :: "directive list" where
  "inittab_format =
     [Dir_int, Dir_space, Dir_not_newline, Dir_space, Dir_not_newline, Dir_space, Dir_int,
      Dir_space, Dir_int]"

text \<open>The body of the loop: a line is used when \<^verbatim>\<open>sscanf\<close> converts all five items
  and the runlevel read is the current one. The result of the retry wrapper is
  discarded. This is the program's behaviour on a line within the bounds of its buffers
  (\<open>line_in_bounds\<close> below); on a line with a longer field the \<^verbatim>\<open>sscanf\<close> of the program
  overruns \<^verbatim>\<open>command\<close> or \<^verbatim>\<open>dependencies\<close>, and \<open>init_line\<close> does not describe it.\<close>

definition init_line :: "string \<Rightarrow> world \<Rightarrow> world" where
  "init_line line s =
     (case sscanf inittab_format line of
        [Item_int rl, Item_str cmd, Item_str deps, Item_int mem, Item_int cpu] \<Rightarrow>
          if rl = current_runlevel s
          then snd (start_process_with_retry cmd rl deps mem cpu 3 s)
          else s
      | _ \<Rightarrow> s)"

fun init_lines :: "string list \<Rightarrow> world \<Rightarrow> world" where
  "init_lines [] s = s"
| "init_lines (line # rest) s = init_lines rest (init_line line s)"

definition init_processes :: "world \<Rightarrow> world" where
  "init_processes s =
     (case inittab s of
        None \<Rightarrow> log_message ''ERROR'' ''Could not open configuration file'' s
      | Some content \<Rightarrow> init_lines (fgets_lines 512 content) s)"

subsection \<open>\<^verbatim>\<open>switch_runlevel\<close>, \<^verbatim>\<open>reload_configuration\<close>, \<^verbatim>\<open>graceful_shutdown\<close>\<close>

text \<open>The body of the loop that stops the records in use, shared by
  \<^verbatim>\<open>switch_runlevel\<close> and \<^verbatim>\<open>graceful_shutdown\<close>.\<close>

definition stop_record :: "nat \<Rightarrow> world \<Rightarrow> world" where
  "stop_record i s =
     (if active (processes s ! i) then
        (waitpid (pid (processes s ! i)) (kill (pid (processes s ! i)) SIGTERM s))
        \<lparr>processes := (processes s)[i := (processes s ! i)\<lparr>active := False,
             state := strncpy 32 ''stopped''\<rparr>]\<rparr>
      else s)"

function stop_from :: "nat \<Rightarrow> world \<Rightarrow> world" where
  "stop_from i s = (if i < process_count s then stop_from (Suc i) (stop_record i s) else s)"
  by pat_completeness auto
termination
  by (relation "measure (\<lambda>(i, s). process_count s - i)")
     (auto simp: stop_record_def kill_def waitpid_def)

declare stop_from.simps [simp del]

definition switch_runlevel :: "int \<Rightarrow> world \<Rightarrow> world" where
  "switch_runlevel new_runlevel s =
     (if new_runlevel < 0 \<or> new_runlevel \<ge> MAX_RUNLEVELS then
        log_message ''ERROR'' ''Invalid runlevel'' s
      else
        init_processes
          ((stop_from 0
              ((log_message ''INFO''
                  (snprintf 512 (''Switching from runlevel '' @ show_int (current_runlevel s)
                     @ '' to '' @ show_int new_runlevel)) s)
               \<lparr>current_runlevel := new_runlevel\<rparr>))
           \<lparr>process_count := 0\<rparr>))"

definition reload_configuration :: "world \<Rightarrow> world" where
  "reload_configuration s =
     init_processes ((log_message ''INFO'' ''Reloading configuration...'' s)\<lparr>process_count := 0\<rparr>)"

definition graceful_shutdown :: "world \<Rightarrow> world" where
  "graceful_shutdown s =
     (log_message ''INFO'' ''All processes terminated. Exiting init.''
        (stop_from 0 (log_message ''INFO'' ''Shutting down init system...'' s)))
     \<lparr>exit_status := Some 0\<rparr>"

subsection \<open>\<^verbatim>\<open>health_check\<close>\<close>

text \<open>One round of the endless loop: the sleep, then the scan of the table. A restart
  can raise \<^verbatim>\<open>process_count\<close> while the scan runs; the scan then goes on over the new
  records too.\<close>

definition restart_record :: "nat \<Rightarrow> world \<Rightarrow> world" where
  "restart_record i s =
     (if \<not> active (processes s ! i) then
        snd (start_process_with_retry (command (processes s ! i)) (runlevel (processes s ! i))
          (dependencies (processes s ! i)) (memory_limit (processes s ! i))
          (cpu_limit (processes s ! i)) 3
          (log_message ''INFO''
             (snprintf 512 (''Restarting process: '' @ command (processes s ! i))) s))
      else s)"

function health_check_from :: "nat \<Rightarrow> world \<Rightarrow> world" where
  "health_check_from i s =
     (if i < process_count s then health_check_from (Suc i) (restart_record i s) else s)"
  by pat_completeness auto
termination
proof (relation "measure (\<lambda>(i, s). max MAX_PROCESSES (process_count s) - i)")
  show "wf (measure (\<lambda>(i, s). max MAX_PROCESSES (process_count s) - i))" by simp
next
  fix i :: nat and s :: world
  assume i: "i < process_count s"
  have start: "process_count (snd (start_process c r d m u w))
      \<le> max MAX_PROCESSES (process_count w)" for c r d m u w
    by (auto simp: start_process_def log_message_def fork_def split: list.splits)
  have retry: "process_count (snd (retry_attempts n c r d m u w))
      \<le> max MAX_PROCESSES (process_count w)" for n c r d m u w
  proof (induction n arbitrary: w)
    case 0
    show ?case by (simp add: log_message_def)
  next
    case (Suc n)
    show ?case using Suc [of "sleep 1 w"] start [of c r d m u w] by (simp add: sleep_def)
  qed
  have "process_count (restart_record i s) \<le> max MAX_PROCESSES (process_count s)"
    using retry [of "nat 3" _ _ _ _ _ "log_message _ _ s"]
    by (simp add: restart_record_def start_process_with_retry_def log_message_def)
  with i show "((Suc i, restart_record i s), (i, s))
      \<in> measure (\<lambda>(i, s). max MAX_PROCESSES (process_count s) - i)"
    by simp
qed

declare health_check_from.simps [simp del]

definition health_check :: "world \<Rightarrow> world" where
  "health_check s = health_check_from 0 (sleep HEALTH_CHECK_INTERVAL s)"


subsection \<open>\<^verbatim>\<open>manage_services\<close>\<close>

text \<open>\<open>argv\<close> is the argument vector as \<^verbatim>\<open>main\<close> passes it (\<^verbatim>\<open>argv + 1\<close>: the word
  \<^verbatim>\<open>manage\<close>, the subcommand, the service name).\<close>

definition manage_services :: "string list \<Rightarrow> world \<Rightarrow> world" where
  "manage_services argv s =
     (if length argv < 3 then
        printf (''Usage: '' @ (case argv of [] \<Rightarrow> [] | a # _ \<Rightarrow> a)
                  @ '' {start|stop|status} <service_name>'') s
      else if argv ! 1 = ''start'' then
        (case find_first (\<lambda>r. command r = argv ! 2 \<and> \<not> active r) (live s) of
           None \<Rightarrow> s
         | Some i \<Rightarrow>
             snd (start_process (command (processes s ! i)) (runlevel (processes s ! i))
               (dependencies (processes s ! i)) (memory_limit (processes s ! i))
               (cpu_limit (processes s ! i)) s))
      else if argv ! 1 = ''stop'' then
        (case find_first (\<lambda>r. command r = argv ! 2 \<and> active r) (live s) of
           None \<Rightarrow> s
         | Some i \<Rightarrow>
             (kill (pid (processes s ! i)) SIGTERM s)
             \<lparr>processes := (processes s)[i := (processes s ! i)\<lparr>active := False,
                  state := strncpy 32 ''stopped''\<rparr>]\<rparr>)
      else if argv ! 1 = ''status'' then
        (case find_first (\<lambda>r. command r = argv ! 2) (live s) of
           None \<Rightarrow> s
         | Some i \<Rightarrow>
             printf (''Service '' @ argv ! 2 @ '' is ''
                       @ (if active (processes s ! i) then ''running'' else ''stopped'')) s)
      else printf (''Unknown command: '' @ argv ! 1) s)"

subsection \<open>The supervisor as a transition system\<close>

text \<open>The entry points of the program: the start of \<^verbatim>\<open>main\<close>, the three signal handlers,
  a round of the health check, and the two command-line requests. Nothing runs after
  \<^verbatim>\<open>exit\<close>.\<close>

datatype event =
  Boot
| Child_exit "(int \<times> int) list"
| Health_tick
| Runlevel_switch int
| Reload
| Shutdown
| Manage "string list"

fun handle :: "event \<Rightarrow> world \<Rightarrow> world" where
  "handle Boot s = init_processes (log_message ''INFO'' ''Starting init...'' s)"
| "handle (Child_exit children) s = handle_signal SIGCHLD children s"
| "handle Health_tick s = health_check s"
| "handle (Runlevel_switch n) s = switch_runlevel n s"
| "handle Reload s = reload_configuration s"
| "handle Shutdown s = graceful_shutdown s"
| "handle (Manage argv) s = manage_services argv s"

fun run :: "event list \<Rightarrow> world \<Rightarrow> world" where
  "run [] s = s"
| "run (e # es) s = (if exit_status s \<noteq> None then s else run es (handle e s))"

text \<open>The shape of the table: the array has \<open>MAX_PROCESSES\<close> slots and the count stays
  within it.\<close>

definition table_ok :: "world \<Rightarrow> bool" where
  "table_ok s = (length (processes s) = MAX_PROCESSES \<and> process_count s \<le> MAX_PROCESSES)"


section \<open>Properties stated about the table\<close>

text \<open>The command strings of the records in use, in table order.\<close>

definition commands :: "world \<Rightarrow> string list" where
  "commands s = map command (live s)"

text \<open>Every record in use belongs to the current runlevel.\<close>

definition runlevel_inv :: "world \<Rightarrow> bool" where
  "runlevel_inv s = (\<forall>r \<in> set (live s). runlevel r = current_runlevel s)"

text \<open>The bounds within which the program has a defined behaviour, and outside which the
  definitions above say nothing about it: a string that \<^verbatim>\<open>sscanf\<close> converts must fit its
  buffer of 256 bytes with the terminator (the scansets have no width, so a longer one
  overruns \<^verbatim>\<open>command\<close> or \<^verbatim>\<open>dependencies\<close>), a number must be in the range of
  \<^verbatim>\<open>int\<close>, and the line itself comes from a buffer of 512 bytes. The bounds are on all
  the items converted, also those before the directive at which \<^verbatim>\<open>sscanf\<close> stops.\<close>

definition int_ok :: "int \<Rightarrow> bool" where
  "int_ok v = (- (2 ^ 31) \<le> v \<and> v < 2 ^ 31)"

fun item_in_bounds :: "scan_item \<Rightarrow> bool" where
  "item_in_bounds (Item_int v) = int_ok v"
| "item_in_bounds (Item_str t) = (length t < 256)"

definition line_in_bounds :: "string \<Rightarrow> bool" where
  "line_in_bounds line =
     (length line < 512 \<and> list_all item_in_bounds (sscanf inittab_format line))"

definition inittab_in_bounds :: "world \<Rightarrow> bool" where
  "inittab_in_bounds s =
     (case inittab s of
        None \<Rightarrow> True
      | Some content \<Rightarrow> list_all line_in_bounds (fgets_lines 512 content))"

text \<open>The strings of a record are C strings in buffers of 256, 256 and 32 bytes: each is
  shorter than its buffer. A string of the buffer's size or more cannot be stored with its
  terminator; \<^verbatim>\<open>strncpy\<close> then leaves the field unterminated, and what the program reads
  from it is not the string that \<open>strncpy\<close> above returns.\<close>

definition record_ok :: "Process \<Rightarrow> bool" where
  "record_ok r =
     (length (command r) < 256 \<and> length (dependencies r) < 256 \<and> length (state r) < 32)"

definition strings_ok :: "world \<Rightarrow> bool" where
  "strings_ok s = (\<forall>r \<in> set (live s). record_ok r)"

definition consistent :: "world \<Rightarrow> bool" where
  "consistent s = (table_ok s \<and> strings_ok s \<and> inittab_in_bounds s \<and> runlevel_inv s)"

text \<open>A line as \<^verbatim>\<open>fgets\<close> delivers it: a newline occurs at most once, as the last
  character.\<close>

definition newline_last :: "string \<Rightarrow> bool" where
  "newline_last s =
     (dropWhile (\<lambda>c. c \<noteq> newline) s = [] \<or> dropWhile (\<lambda>c. c \<noteq> newline) s = [newline])"

section \<open>Example states\<close>

text \<open>The second example line of the inittab format, with its newline.\<close>

definition example_line :: string where
  "example_line = ''3 /usr/sbin/sshd syslogd 67108864 20'' @ [newline]"

text \<open>A supervisor whose inittab holds that line, with a \<^verbatim>\<open>fork\<close> that would succeed.\<close>

definition example_world :: world where
  "example_world = init_world\<lparr>inittab := Some example_line, fork_results := [100]\<rparr>"

text \<open>The table after \<^verbatim>\<open>/bin/a\<close> has been started at runlevel 0 with pid 100; the next
  \<^verbatim>\<open>fork\<close> would return 101.\<close>

definition world_a :: world where
  "world_a = snd (start_process ''/bin/a'' 0 [] 0 0 (init_world\<lparr>fork_results := [100, 101]\<rparr>))"

text \<open>A full table: ten services \<^verbatim>\<open>/bin/s0\<close> to \<^verbatim>\<open>/bin/s9\<close> started one after the
  other, with pids 100 to 109.\<close>

definition full_world :: world where
  "full_world =
     fold (\<lambda>i s. snd (start_process (''/bin/s'' @ show_nat i) 0 [] 0 0 s)) [0..<10]
       (init_world\<lparr>fork_results := map (\<lambda>i. 100 + int i) [0..<10]\<rparr>)"

text \<open>The same table, with an inittab that holds the example line.\<close>

definition booting_world :: world where
  "booting_world = world_a\<lparr>inittab := Some example_line\<rparr>"

text \<open>A string with a newline after each of its first two fields. The format converts all
  five items of it; \<^verbatim>\<open>fgets\<close> delivers no line of this shape.\<close>

definition split_line :: string where
  "split_line = ''0 /bin/b'' @ [newline] @ ''/bin/a'' @ [newline] @ ''0 0''"

text \<open>A supervisor whose next \<^verbatim>\<open>fork\<close> fails.\<close>

definition fork_fails_world :: world where
  "fork_fails_world = init_world\<lparr>fork_results := [- 1]\<rparr>"

text \<open>All three cgroup files can be opened.\<close>

definition all_openable :: "string list" where
  "all_openable = [memory_limit_path, cpu_quota_path, cgroup_procs_path]"

section \<open>Auxiliary facts\<close>

subsection \<open>Lines, scanning and the inittab format\<close>

lemma newline_last_tl: "newline_last (x # xs) \<Longrightarrow> newline_last xs"
  by (cases "x = newline") (auto simp: newline_last_def)

lemma newline_last_tl': "newline_last s \<Longrightarrow> newline_last (tl s)"
  by (cases s) (auto dest: newline_last_tl)

lemma newline_last_dropWhile: "newline_last s \<Longrightarrow> newline_last (dropWhile P s)"
  by (induction s) (auto dest: newline_last_tl)

lemma scan_int_newline_last:
  "scan_int s = Some (v, r) \<Longrightarrow> newline_last s \<Longrightarrow> newline_last r"
  by (auto simp: scan_int_def Let_def newline_last_dropWhile newline_last_tl' split: if_splits)


lemma isspace_newline: "isspace newline"
  by (simp add: isspace_def newline_def)

lemma sscanf_second_string:
  assumes "newline_last s"
  shows "length (sscanf (Dir_not_newline # Dir_space # Dir_not_newline # ds) s) \<le> 1"
proof -
  from assms have "dropWhile (\<lambda>c. c \<noteq> newline) s = [] \<or> dropWhile (\<lambda>c. c \<noteq> newline) s = [newline]"
    by (simp add: newline_last_def)
  then have "dropWhile isspace (dropWhile (\<lambda>c. c \<noteq> newline) s) = []"
  proof
    assume "dropWhile (\<lambda>c. c \<noteq> newline) s = []"
    then show ?thesis by (simp only: dropWhile.simps)
  next
    assume "dropWhile (\<lambda>c. c \<noteq> newline) s = [newline]"
    then show ?thesis by (simp only: dropWhile.simps isspace_newline if_True)
  qed
  then have "sscanf (Dir_space # Dir_not_newline # ds) (dropWhile (\<lambda>c. c \<noteq> newline) s) = []"
    by (simp only: sscanf.simps takeWhile.simps Let_def refl if_True)
  then show ?thesis
    unfolding sscanf.simps(4) Let_def by simp
qed

lemma sscanf_inittab_le2:
  assumes "newline_last line"
  shows "length (sscanf inittab_format line) \<le> 2"
proof (cases "scan_int line")
  case None
  then show ?thesis by (simp add: inittab_format_def)
next
  case (Some a)
  obtain v r where a: "a = (v, r)" by (cases a)
  from Some a assms have "newline_last (dropWhile isspace r)"
    by (auto intro: newline_last_dropWhile scan_int_newline_last)
  from sscanf_second_string [OF this] Some a show ?thesis
    by (simp add: inittab_format_def)
qed

lemma fgets_one_newline_last: "newline_last (fst (fgets_one k s))"
  by (induction k s rule: fgets_one.induct) (auto simp: newline_last_def split: prod.splits)

lemma fgets_lines_newline_last: "line \<in> set (fgets_lines n s) \<Longrightarrow> newline_last line"
proof (induction n s rule: fgets_lines.induct)
  case (1 n s)
  show ?case
  proof (cases "s = [] \<or> n \<le> 1")
    case True
    with "1.prems" show ?thesis by (simp add: fgets_lines.simps)
  next
    case False
    then have "fgets_lines n s
        = fst (fgets_one (n - 1) s) # fgets_lines n (snd (fgets_one (n - 1) s))"
      by (subst fgets_lines.simps) simp
    with "1.prems" have "line = fst (fgets_one (n - 1) s)
        \<or> line \<in> set (fgets_lines n (snd (fgets_one (n - 1) s)))"
      by simp
    then show ?thesis
      using "1.IH" [OF False] by (auto simp: fgets_one_newline_last)
  qed
qed

lemma init_line_skips: "newline_last line \<Longrightarrow> init_line line s = s"
proof -
  assume "newline_last line"
  then have "length (sscanf inittab_format line) \<le> 2"
    by (rule sscanf_inittab_le2)
  then consider "sscanf inittab_format line = []"
    | a where "sscanf inittab_format line = [a]"
    | a b where "sscanf inittab_format line = [a, b]"
    by (cases "sscanf inittab_format line" rule: list.exhaust [case_names Nil Cons])
       (auto simp: length_Suc_conv le_Suc_eq)
  then show ?thesis
  proof cases
    case 1
    then show ?thesis by (simp add: init_line_def)
  next
    case 2
    then show ?thesis by (simp add: init_line_def split: scan_item.splits)
  next
    case 3
    then show ?thesis by (simp add: init_line_def split: scan_item.splits)
  qed
qed

lemma init_lines_skip: "\<forall>line \<in> set ls. newline_last line \<Longrightarrow> init_lines ls s = s"
  by (induction ls arbitrary: s) (auto simp: init_line_skips)

lemma init_processes_starts_nothing: "inittab s = Some content \<Longrightarrow> init_processes s = s"
  by (simp add: init_processes_def init_lines_skip fgets_lines_newline_last)

subsection \<open>Frames and invariants of the operations\<close>

lemmas effect_defs = log_message_def sleep_def kill_def waitpid_def printf_def

lemma find_first_Some: "find_first P xs = Some i \<Longrightarrow> i < length xs \<and> P (xs ! i) \<and> (\<forall>j<i. \<not> P (xs ! j))"
proof (induction xs arbitrary: i)
  case Nil
  then show ?case by simp
next
  case (Cons x xs)
  show ?case
  proof (cases "P x")
    case True
    with Cons.prems show ?thesis by simp
  next
    case False
    with Cons.prems obtain k where k: "find_first P xs = Some k" and i: "i = Suc k"
      by auto
    from Cons.IH [OF k] False show ?thesis
      by (auto simp: i less_Suc_eq_0_disj)
  qed
qed

lemma find_first_None: "find_first P xs = None \<Longrightarrow> \<forall>x \<in> set xs. \<not> P x"
  by (induction xs) (auto split: if_splits)

lemma live_nth: "i < length (live s) \<Longrightarrow> live s ! i = processes s ! i \<and> i < process_count s \<and> i < length (processes s)"
  by (simp add: live_def)

lemma live_append:
  "n < length xs \<Longrightarrow> take (Suc n) (xs[n := x]) = take n xs @ [x]"
  by (simp add: take_Suc_conv_app_nth)


lemma start_process_frame:
  "current_runlevel (snd (start_process c r d m u s)) = current_runlevel s"
  "inittab (snd (start_process c r d m u s)) = inittab s"
  "exit_status (snd (start_process c r d m u s)) = exit_status s"
  by (auto simp: start_process_def fork_def effect_defs split: list.splits)

lemma start_process_table:
  "(processes (snd (start_process c r d m u s)) = processes s
      \<and> process_count (snd (start_process c r d m u s)) = process_count s
      \<and> (\<forall>p. fst (start_process c r d m u s) \<noteq> Started p))
   \<or> (\<exists>p. fst (start_process c r d m u s) = Started p \<and> 0 < p
      \<and> process_count s < MAX_PROCESSES
      \<and> check_all_dependencies_active d s
      \<and> process_count (snd (start_process c r d m u s)) = Suc (process_count s)
      \<and> processes (snd (start_process c r d m u s))
          = (processes s)[process_count s := new_record p c r d m u])"
  by (auto simp: start_process_def fork_def effect_defs new_record_def split: list.splits)

lemma start_process_table_ok:
  "table_ok s \<Longrightarrow> table_ok (snd (start_process c r d m u s))"
  using start_process_table [of c r d m u s] by (auto simp: table_ok_def)

lemma start_process_live:
  assumes "table_ok s"
  shows "live (snd (start_process c r d m u s)) = live s
     \<or> (\<exists>p. live (snd (start_process c r d m u s)) = live s @ [new_record p c r d m u])"
  using start_process_table [of c r d m u s] assms
  by (auto simp: live_def table_ok_def live_append)

lemma new_record_fields [simp]:
  "runlevel (new_record p c r d m u) = r"
  "command (new_record p c r d m u) = strncpy 256 c"
  by (simp_all add: new_record_def)

lemma strncpy_fits: "length src < n \<Longrightarrow> strncpy n src = src"
  by (simp add: strncpy_def)

lemma new_record_ok: "length c < 256 \<Longrightarrow> length d < 256 \<Longrightarrow> record_ok (new_record p c r d m u)"
  by (simp add: record_ok_def new_record_def strncpy_def)

lemma inittab_in_bounds_frame: "inittab t = inittab s \<Longrightarrow> inittab_in_bounds t = inittab_in_bounds s"
  by (simp add: inittab_in_bounds_def)

lemma start_process_inv:
  assumes "table_ok s" "runlevel_inv s" "strings_ok s" "r = current_runlevel s"
    "length c < 256" "length d < 256"
  shows "runlevel_inv (snd (start_process c r d m u s))
     \<and> strings_ok (snd (start_process c r d m u s))"
  using start_process_live [OF assms(1), of c r d m u] assms(2-)
  by (auto simp: runlevel_inv_def strings_ok_def start_process_frame new_record_ok)

lemma retry_attempts_frame:
  "current_runlevel (snd (retry_attempts n c r d m u s)) = current_runlevel s"
  "inittab (snd (retry_attempts n c r d m u s)) = inittab s"
  "exit_status (snd (retry_attempts n c r d m u s)) = exit_status s"
  by (induction n arbitrary: s) (auto simp: start_process_frame effect_defs)

lemma sleep_live [simp]: "live (sleep n s) = live s" "table_ok (sleep n s) = table_ok s"
  "runlevel_inv (sleep n s) = runlevel_inv s" "strings_ok (sleep n s) = strings_ok s"
  "inittab_in_bounds (sleep n s) = inittab_in_bounds s"
  by (auto simp: live_def sleep_def table_ok_def runlevel_inv_def strings_ok_def
      inittab_in_bounds_def)

lemma log_message_live [simp]: "live (log_message l m s) = live s"
  "table_ok (log_message l m s) = table_ok s"
  "runlevel_inv (log_message l m s) = runlevel_inv s"
  "strings_ok (log_message l m s) = strings_ok s"
  "inittab_in_bounds (log_message l m s) = inittab_in_bounds s"
  by (auto simp: live_def log_message_def table_ok_def runlevel_inv_def strings_ok_def
      inittab_in_bounds_def)

lemma retry_attempts_inv:
  assumes "table_ok s" "runlevel_inv s" "strings_ok s" "r = current_runlevel s"
    "length c < 256" "length d < 256"
  shows "table_ok (snd (retry_attempts n c r d m u s))
     \<and> runlevel_inv (snd (retry_attempts n c r d m u s))
     \<and> strings_ok (snd (retry_attempts n c r d m u s))"
  using assms
proof (induction n arbitrary: s)
  case 0
  then show ?case by simp
next
  case (Suc n)
  show ?case
  proof (cases "check_all_dependencies_active d s")
    case True
    with Suc.prems show ?thesis
      by (simp add: start_process_table_ok start_process_inv)
  next
    case False
    have "current_runlevel (sleep 1 s) = current_runlevel s" by (simp add: sleep_def)
    with Suc.IH [of "sleep 1 s"] Suc.prems False show ?thesis
      by simp
  qed
qed

lemma consistent_effects [simp]:
  "consistent (log_message l m s) = consistent s"
  "consistent (sleep k s) = consistent s"
  "consistent (kill a b s) = consistent s"
  "consistent (waitpid a s) = consistent s"
  "consistent (printf m s) = consistent s"
  by (simp_all add: consistent_def table_ok_def runlevel_inv_def strings_ok_def
      inittab_in_bounds_def live_def effect_defs)

lemma consistent_table_ok: "consistent s \<Longrightarrow> table_ok s"
  by (simp add: consistent_def)

lemma retry_frame:
  "current_runlevel (snd (start_process_with_retry c r d m u k s)) = current_runlevel s"
  "inittab (snd (start_process_with_retry c r d m u k s)) = inittab s"
  "exit_status (snd (start_process_with_retry c r d m u k s)) = exit_status s"
  by (simp_all add: start_process_with_retry_def retry_attempts_frame)

lemma retry_consistent:
  assumes "consistent s" "r = current_runlevel s" "length c < 256" "length d < 256"
  shows "consistent (snd (start_process_with_retry c r d m u k s))"
proof -
  have "inittab_in_bounds (snd (start_process_with_retry c r d m u k s)) = inittab_in_bounds s"
    by (rule inittab_in_bounds_frame) (rule retry_frame)
  with assms retry_attempts_inv [of s r c d "nat k" m u] show ?thesis
    by (simp add: consistent_def start_process_with_retry_def)
qed

lemma init_line_cases:
  "init_line line s = s
   \<or> (\<exists>rl cmd deps mem cpu.
        sscanf inittab_format line
          = [Item_int rl, Item_str cmd, Item_str deps, Item_int mem, Item_int cpu]
        \<and> rl = current_runlevel s
        \<and> init_line line s = snd (start_process_with_retry cmd rl deps mem cpu 3 s))"
  by (auto simp: init_line_def split: list.splits scan_item.splits)

lemma line_in_bounds_fields:
  assumes "line_in_bounds line"
    "sscanf inittab_format line
       = [Item_int rl, Item_str cmd, Item_str deps, Item_int mem, Item_int cpu]"
  shows "length cmd < 256 \<and> length deps < 256"
  using assms by (simp add: line_in_bounds_def)

lemma init_line_consistent:
  assumes "consistent s" "line_in_bounds line"
  shows "consistent (init_line line s)"
  using init_line_cases [of line s] assms line_in_bounds_fields [OF assms(2)]
  by (auto simp: retry_consistent)

lemma init_line_frame:
  "current_runlevel (init_line line s) = current_runlevel s"
  using init_line_cases [of line s] by (auto simp: retry_frame)

lemma init_lines_consistent:
  "consistent s \<Longrightarrow> \<forall>line \<in> set ls. line_in_bounds line \<Longrightarrow> consistent (init_lines ls s)"
  by (induction ls arbitrary: s) (auto simp: init_line_consistent)

lemma init_lines_frame: "current_runlevel (init_lines ls s) = current_runlevel s"
  by (induction ls arbitrary: s) (auto simp: init_line_frame)

lemma init_processes_consistent:
  assumes "consistent s"
  shows "consistent (init_processes s)"
proof (cases "inittab s")
  case None
  with assms show ?thesis by (simp add: init_processes_def)
next
  case (Some content)
  with assms have "\<forall>line \<in> set (fgets_lines 512 content). line_in_bounds line"
    by (simp add: consistent_def inittab_in_bounds_def list_all_iff)
  with assms Some show ?thesis
    by (simp add: init_processes_def init_lines_consistent)
qed

lemma init_processes_frame: "current_runlevel (init_processes s) = current_runlevel s"
  by (auto simp: init_processes_def init_lines_frame log_message_def split: option.splits)

lemma live_update_cases:
  assumes "r \<in> set (take n (xs[i := f (xs ! i)]))"
  shows "r \<in> set (take n xs) \<or> (\<exists>r0 \<in> set (take n xs). r = f r0)"
proof -
  from assms obtain j where j: "j < n" "j < length xs" and r: "r = (xs[i := f (xs ! i)]) ! j"
    by (auto simp: in_set_conv_nth)
  from j have m: "xs ! j \<in> set (take n xs)"
    by (auto simp: in_set_conv_nth intro!: exI [of _ j])
  show ?thesis
  proof (cases "i = j")
    case True
    with r j have "r = f (xs ! j)" by simp
    with m show ?thesis by blast
  next
    case False
    with r have "r = xs ! j" by simp
    with m show ?thesis by simp
  qed
qed

lemma mark_stopped_consistent:
  assumes "consistent s" "length st < 32"
  shows "consistent (s\<lparr>processes := (processes s)[i := (processes s ! i)\<lparr>active := False, state := st\<rparr>]\<rparr>)"
proof -
  have "runlevel r = current_runlevel s \<and> record_ok r"
    if "r \<in> set (take (process_count s) ((processes s)[i := (processes s ! i)\<lparr>active := False, state := st\<rparr>]))" for r
    using live_update_cases [of r "process_count s" "processes s" i
        "\<lambda>x. x\<lparr>active := False, state := st\<rparr>"] that assms
    by (auto simp: consistent_def runlevel_inv_def strings_ok_def live_def record_ok_def)
  with assms show ?thesis
    by (simp add: consistent_def runlevel_inv_def strings_ok_def live_def table_ok_def
        inittab_in_bounds_def)
qed

lemma stopped_fits: "length (strncpy 32 ''stopped'') < 32"
  by (simp add: strncpy_def)

lemma reap_consistent: "consistent s \<Longrightarrow> consistent (reap p s)"
proof -
  assume g: "consistent s"
  have eq: "(log_message l m s)\<lparr>processes := v\<rparr> = log_message l m (s\<lparr>processes := v\<rparr>)" for l m v
    by (simp add: log_message_def)
  from g show ?thesis
    by (auto simp: reap_def eq mark_stopped_consistent stopped_fits split: option.splits)
qed

lemma reap_frame: "current_runlevel (reap p s) = current_runlevel s"
  by (auto simp: reap_def log_message_def split: option.splits)

lemma reap_all_consistent: "consistent s \<Longrightarrow> consistent (reap_all cs s)"
  by (induction cs s rule: reap_all.induct) (auto simp: reap_consistent)

lemma reap_all_frame: "current_runlevel (reap_all cs s) = current_runlevel s"
  by (induction cs s rule: reap_all.induct) (auto simp: reap_frame)

lemma stop_record_consistent: "consistent s \<Longrightarrow> consistent (stop_record i s)"
proof -
  assume g: "consistent s"
  have eq: "(waitpid a (kill b c s))\<lparr>processes := v\<rparr> = waitpid a (kill b c (s\<lparr>processes := v\<rparr>))" for a b c v
    by (simp add: waitpid_def kill_def)
  from g show ?thesis
    by (auto simp: stop_record_def eq mark_stopped_consistent stopped_fits)
qed

lemma stop_record_frame:
  "current_runlevel (stop_record i s) = current_runlevel s"
  "process_count (stop_record i s) = process_count s"
  "inittab (stop_record i s) = inittab s"
  by (auto simp: stop_record_def effect_defs)

lemma stop_from_consistent: "consistent s \<Longrightarrow> consistent (stop_from i s)"
proof (induction i s rule: stop_from.induct)
  case (1 i s)
  then show ?case
    by (subst stop_from.simps) (auto simp: stop_record_consistent)
qed

lemma stop_from_frame:
  "current_runlevel (stop_from i s) = current_runlevel s \<and> inittab (stop_from i s) = inittab s"
proof (induction i s rule: stop_from.induct)
  case (1 i s)
  then show ?case
    by (subst (1 2) stop_from.simps) (auto simp: stop_record_frame)
qed

lemma stop_from_table_ok: "table_ok s \<Longrightarrow> table_ok (stop_from i s)"
proof (induction i s rule: stop_from.induct)
  case (1 i s)
  have "table_ok (stop_record i s)" using 1(2)
    by (auto simp: stop_record_def table_ok_def effect_defs)
  with 1 show ?case
    by (subst stop_from.simps) auto
qed

lemma empty_consistent:
  "table_ok s \<Longrightarrow> inittab_in_bounds s \<Longrightarrow> consistent (s\<lparr>process_count := 0\<rparr>)"
  by (simp add: consistent_def table_ok_def runlevel_inv_def strings_ok_def live_def
      inittab_in_bounds_def)

lemma switch_runlevel_consistent: "consistent s \<Longrightarrow> consistent (switch_runlevel n s)"
proof (cases "n < 0 \<or> n \<ge> MAX_RUNLEVELS")
  case True
  assume "consistent s"
  with True show ?thesis by (simp add: switch_runlevel_def)
next
  case False
  assume c: "consistent s"
  let ?s1 = "(log_message ''INFO''
                  (snprintf 512 (''Switching from runlevel '' @ show_int (current_runlevel s)
                     @ '' to '' @ show_int n)) s)
               \<lparr>current_runlevel := n\<rparr>"
  from c have "table_ok ?s1" "inittab_in_bounds ?s1"
    by (simp_all add: consistent_def table_ok_def inittab_in_bounds_def log_message_def)
  then have "table_ok (stop_from 0 ?s1)" "inittab_in_bounds (stop_from 0 ?s1)"
    using inittab_in_bounds_frame [of "stop_from 0 ?s1" ?s1]
    by (simp_all add: stop_from_table_ok stop_from_frame)
  then show ?thesis using False
    by (simp add: switch_runlevel_def init_processes_consistent empty_consistent)
qed

lemma reload_consistent: "consistent s \<Longrightarrow> consistent (reload_configuration s)"
proof -
  assume "consistent s"
  then have "table_ok (log_message ''INFO'' ''Reloading configuration...'' s)"
    "inittab_in_bounds (log_message ''INFO'' ''Reloading configuration...'' s)"
    by (simp_all add: consistent_def)
  then show ?thesis
    by (simp add: reload_configuration_def init_processes_consistent empty_consistent)
qed

lemma shutdown_consistent: "consistent s \<Longrightarrow> consistent (graceful_shutdown s)"
proof -
  assume "consistent s"
  then have "consistent (stop_from 0 (log_message ''INFO'' ''Shutting down init system...'' s))"
    by (simp add: stop_from_consistent)
  then have "consistent (log_message ''INFO'' ''All processes terminated. Exiting init.''
        (stop_from 0 (log_message ''INFO'' ''Shutting down init system...'' s)))"
    by simp
  then show ?thesis
    unfolding graceful_shutdown_def
    by (simp add: consistent_def table_ok_def runlevel_inv_def strings_ok_def live_def
        inittab_in_bounds_def)
qed

lemma live_member: "table_ok s \<Longrightarrow> i < process_count s \<Longrightarrow> processes s ! i \<in> set (live s)"
  by (auto simp: live_def table_ok_def in_set_conv_nth intro!: exI [of _ i])

lemma live_record:
  assumes "consistent s" "processes s ! i \<in> set (live s)"
  shows "runlevel (processes s ! i) = current_runlevel s
     \<and> length (command (processes s ! i)) < 256
     \<and> length (dependencies (processes s ! i)) < 256"
  using assms by (auto simp: consistent_def runlevel_inv_def strings_ok_def record_ok_def)

lemma restart_record_consistent:
  assumes "consistent s" "i < process_count s"
  shows "consistent (restart_record i s)"
proof -
  from assms have "processes s ! i \<in> set (live s)"
    using live_member [of s i] by (simp add: consistent_def)
  from live_record [OF assms(1) this]
  have "runlevel (processes s ! i) = current_runlevel (log_message ''INFO''
             (snprintf 512 (''Restarting process: '' @ command (processes s ! i))) s)"
    and "length (command (processes s ! i)) < 256"
    and "length (dependencies (processes s ! i)) < 256"
    by (simp_all add: log_message_def)
  with assms(1) show ?thesis
    by (simp add: restart_record_def retry_consistent)
qed

lemma restart_record_frame: "current_runlevel (restart_record i s) = current_runlevel s"
  by (simp add: restart_record_def retry_frame log_message_def)

lemma health_check_from_consistent: "consistent s \<Longrightarrow> consistent (health_check_from i s)"
proof (induction i s rule: health_check_from.induct)
  case (1 i s)
  then show ?case
    by (subst health_check_from.simps) (auto simp: restart_record_consistent)
qed

lemma health_check_from_frame: "current_runlevel (health_check_from i s) = current_runlevel s"
proof (induction i s rule: health_check_from.induct)
  case (1 i s)
  then show ?case
    by (subst health_check_from.simps) (auto simp: restart_record_frame)
qed

lemma health_check_consistent: "consistent s \<Longrightarrow> consistent (health_check s)"
  by (simp add: health_check_def health_check_from_consistent)

lemma manage_services_consistent:
  assumes "consistent s"
  shows "consistent (manage_services argv s)"
proof -
  have start: "consistent (snd (start_process (command (processes s ! i)) (runlevel (processes s ! i))
               (dependencies (processes s ! i)) (memory_limit (processes s ! i))
               (cpu_limit (processes s ! i)) s))"
    if "find_first P (live s) = Some i" for P i
  proof -
    from find_first_Some [OF that] have "i < length (live s)" by simp
    then have "processes s ! i \<in> set (live s)"
      using live_nth [of i s] by (metis nth_mem)
    from live_record [OF assms this] assms show ?thesis
      using start_process_inv [of s "runlevel (processes s ! i)" "command (processes s ! i)"
          "dependencies (processes s ! i)"]
        start_process_table_ok [of s]
        inittab_in_bounds_frame [OF start_process_frame(2)]
      by (simp add: consistent_def)
  qed
  have eq: "(kill a b s)\<lparr>processes := v\<rparr> = kill a b (s\<lparr>processes := v\<rparr>)" for a b v
    by (simp add: kill_def)
  from assms show ?thesis
    unfolding manage_services_def
    by (auto simp: start eq mark_stopped_consistent stopped_fits split: option.splits)
qed

lemma manage_services_frame: "current_runlevel (manage_services argv s) = current_runlevel s"
  by (auto simp: manage_services_def start_process_frame effect_defs split: option.splits)

lemma handle_consistent: "consistent s \<Longrightarrow> consistent (handle e s)"
  by (cases e)
     (auto simp: init_processes_consistent handle_signal_def reap_all_consistent health_check_consistent
        switch_runlevel_consistent reload_consistent shutdown_consistent manage_services_consistent)

lemma run_consistent: "consistent s \<Longrightarrow> consistent (run es s)"
  by (induction es arbitrary: s) (auto simp: handle_consistent)

lemma handle_runlevel_change:
  assumes "current_runlevel (handle e s) \<noteq> current_runlevel s"
  shows "\<exists>n s0. e = Runlevel_switch n \<and> 0 \<le> n \<and> n < MAX_RUNLEVELS \<and> process_count s0 = 0
     \<and> current_runlevel s0 = n \<and> handle e s = init_processes s0"
proof (cases e)
  case (Runlevel_switch n)
  show ?thesis
  proof (cases "n < 0 \<or> n \<ge> MAX_RUNLEVELS")
    case True
    with assms Runlevel_switch show ?thesis
      by (simp add: switch_runlevel_def log_message_def)
  next
    case False
    then show ?thesis
      unfolding Runlevel_switch
      by (auto simp: switch_runlevel_def stop_from_frame intro!: exI)
  qed
qed (use assms in \<open>auto simp: init_processes_frame handle_signal_def reap_all_frame
   health_check_def health_check_from_frame reload_configuration_def graceful_shutdown_def
   stop_from_frame manage_services_frame effect_defs\<close>)

subsection \<open>Facts used by the claims\<close>

lemma dependency_found_iff:
  "dependency_found dep rs \<longleftrightarrow> (\<exists>r \<in> set rs. command r = dep \<and> state r = ''running'')"
  by (induction rs) auto

lemma all_dependencies_found_iff:
  "all_dependencies_found deps rs \<longleftrightarrow> (\<forall>dep \<in> set deps. dependency_found dep rs)"
  by (induction deps) auto

lemma strtok_list_dash: "strtok_list '','' ''-'' = [''-'']"
  by code_simp

lemma strtok_list_empty: "strtok_list delims [] = []"
  by (simp add: strtok_list.simps)

lemma cgroup_paths:
  "snprintf 256 memory_limit_path = memory_limit_path"
  "snprintf 256 cpu_quota_path = cpu_quota_path"
  "snprintf 256 cgroup_procs_path = cgroup_procs_path"
  "memory_limit_path \<noteq> cpu_quota_path"
  "memory_limit_path \<noteq> cgroup_procs_path"
  "cpu_quota_path \<noteq> cgroup_procs_path"
  by (simp_all add: snprintf_def memory_limit_path_def cpu_quota_path_def cgroup_procs_path_def)

lemma c_int_exact: "- (2 ^ 31) \<le> v \<Longrightarrow> v < 2 ^ 31 \<Longrightarrow> c_int v = v"
  by (simp add: c_int_def)

lemma commands_mark_stopped:
  "commands (s\<lparr>processes := (processes s)[i := (processes s ! i)\<lparr>active := False, state := st\<rparr>]\<rparr>)
     = commands s"
proof -
  have "map command ((processes s)[i := (processes s ! i)\<lparr>active := False, state := st\<rparr>])
      = map command (processes s)"
    by (cases "i < length (processes s)")
       (simp_all add: map_update list_update_same_conv list_update_beyond)
  then show ?thesis
    by (simp add: commands_def live_def take_map [symmetric])
qed

lemma commands_reap: "commands (reap p s) = commands s"
proof -
  have eq: "(log_message l m s)\<lparr>processes := v\<rparr> = log_message l m (s\<lparr>processes := v\<rparr>)" for l m v
    by (simp add: log_message_def)
  have "commands (log_message l m t) = commands t" for l m t
    by (simp add: commands_def)
  then show ?thesis
    by (simp add: reap_def eq commands_mark_stopped split: option.splits)
qed

lemma commands_reap_all: "commands (reap_all children s) = commands s"
  by (induction children s rule: reap_all.induct) (auto simp: commands_reap)

lemma find_first_eq_Some:
  "i < length xs \<Longrightarrow> P (xs ! i) \<Longrightarrow> \<forall>j<i. \<not> P (xs ! j) \<Longrightarrow> find_first P xs = Some i"
proof (induction xs arbitrary: i)
  case Nil
  then show ?case by simp
next
  case (Cons x xs)
  show ?case
  proof (cases i)
    case 0
    with Cons.prems show ?thesis by simp
  next
    case (Suc k)
    with Cons.prems have "\<not> P x" by auto
    moreover from Cons.prems Suc have "find_first P xs = Some k"
      by (intro Cons.IH) auto
    ultimately show ?thesis by (simp add: Suc)
  qed
qed

lemma find_first_eq_None: "\<forall>x \<in> set xs. \<not> P x \<Longrightarrow> find_first P xs = None"
  by (induction xs) auto

lemma commands_effects [simp]:
  "commands (log_message l m s) = commands s"
  "commands (sleep k s) = commands s"
  by (simp_all add: commands_def)

lemma start_process_commands_cases:
  assumes "table_ok s" "length c < 256"
  shows "commands (snd (start_process c r d m u s)) = commands s
     \<or> commands (snd (start_process c r d m u s)) = commands s @ [c]"
  using start_process_live [OF assms(1), of c r d m u] assms(2)
  by (auto simp: commands_def strncpy_fits)

lemma retry_attempts_commands:
  assumes "table_ok s" "length c < 256"
  shows "commands (snd (retry_attempts n c r d m u s)) = commands s
     \<or> commands (snd (retry_attempts n c r d m u s)) = commands s @ [c]"
  using assms
proof (induction n arbitrary: s)
  case 0
  show ?case by simp
next
  case (Suc n)
  show ?case
  proof (cases "check_all_dependencies_active d s")
    case True
    with start_process_commands_cases [OF Suc.prems, of r d m u] show ?thesis by simp
  next
    case False
    with Suc.IH [of "sleep 1 s"] Suc.prems show ?thesis by simp
  qed
qed

lemma commands_empty: "commands (s\<lparr>process_count := 0\<rparr>) = []"
  by (simp add: commands_def live_def)

section \<open>The claims\<close>

subsection \<open>C1: reading the inittab\<close>

text \<open>Claim C1 says that every line of five white-space separated fields (runlevel, command,
  dependencies, memory bytes, cpu percent), such as
  \<^verbatim>\<open>3 /usr/sbin/sshd syslogd 67108864 20\<close>, yields a declaration with these five values.
  The program's \<^verbatim>\<open>sscanf\<close> on this very line converts two items only, the runlevel and
  the whole rest of the line as the command: the scanset \<^verbatim>\<open>%[^\n]\<close> runs to the end of
  the line and leaves nothing for the third conversion. The count is not 5, so the line
  is skipped: after a switch to runlevel 3 with this inittab the table is empty and
  \<^verbatim>\<open>fork\<close> has not been called. (By \<open>init_processes_starts_nothing\<close> this is so for
  every content of the file whose lines stay within the buffers.)\<close>

theorem init_processes_skips_example_line:
  "sscanf inittab_format example_line
     = [Item_int 3, Item_str ''/usr/sbin/sshd syslogd 67108864 20'']
   \<and> current_runlevel (switch_runlevel 3 example_world) = 3
   \<and> process_count (switch_runlevel 3 example_world) = 0
   \<and> fork_calls (switch_runlevel 3 example_world) = 0"
  by code_simp

subsection \<open>C2: the dependency check\<close>

text \<open>Claim C2, as amended: \<^verbatim>\<open>check_all_dependencies_active\<close> returns true if and only if
  every token of the dependency string between commas is the command of a record in use
  whose state is \<^verbatim>\<open>"running"\<close>. The empty string has no token and is satisfied in every
  state of the table. The string \<^verbatim>\<open>"-"\<close> is one token: it is satisfied exactly when a
  running record has the command \<^verbatim>\<open>"-"\<close>.\<close>

theorem check_all_dependencies_active_iff:
  "(check_all_dependencies_active deps s \<longleftrightarrow>
      (\<forall>dep \<in> set (strtok_list '','' deps).
         \<exists>r \<in> set (live s). command r = dep \<and> state r = ''running''))
   \<and> check_all_dependencies_active [] s
   \<and> (check_all_dependencies_active ''-'' s \<longleftrightarrow>
        (\<exists>r \<in> set (live s). command r = ''-'' \<and> state r = ''running''))"
  by (simp add: check_all_dependencies_active_def all_dependencies_found_iff
      dependency_found_iff strtok_list_dash strtok_list_empty)

text \<open>Witness for C2: \<^verbatim>\<open>/bin/a\<close> is satisfied once \<^verbatim>\<open>/bin/a\<close> runs.\<close>

theorem check_all_dependencies_active_witness:
  "check_all_dependencies_active ''/bin/a'' world_a"
proof -
  have "\<forall>dep \<in> set (strtok_list '','' ''/bin/a'').
         \<exists>r \<in> set (live world_a). command r = dep \<and> state r = ''running''"
    by code_simp
  with check_all_dependencies_active_iff [of "''/bin/a''" world_a] show ?thesis
    by blast
qed

text \<open>Counterexample to C2 as stated: with an empty table the dependency string
  \<^verbatim>\<open>"-"\<close> is not satisfied.\<close>

theorem dash_dependency_counterexample:
  "\<not> check_all_dependencies_active ''-'' init_world"
  by code_simp

subsection \<open>C3: starting with unmet dependencies\<close>

text \<open>Claim C3, as amended: when the dependencies of a declaration are not all satisfied,
  \<^verbatim>\<open>start_process\<close> does not call \<^verbatim>\<open>fork\<close> and leaves the table and the count as they
  were. It leaves by the dependency failure (a \<^verbatim>\<open>WARNING\<close> line) when the table has room,
  and by the capacity failure (the \<^verbatim>\<open>ERROR\<close> line \<^verbatim>\<open>Max processes reached\<close>) when the table
  is full, because the capacity is checked first.\<close>

theorem start_process_dependencies_unmet:
  assumes "\<not> check_all_dependencies_active deps s"
  shows "fst (start_process cmd rl deps mem cpu s)
           = (if process_count s \<ge> MAX_PROCESSES then Capacity_exceeded else Dependencies_unmet)
     \<and> audit_log (snd (start_process cmd rl deps mem cpu s))
           = audit_log s @
             [if process_count s \<ge> MAX_PROCESSES then (''ERROR'', ''Max processes reached'')
              else (''WARNING'',
                    snprintf 512 (''Cannot start '' @ cmd @ '': dependencies not satisfied''))]
     \<and> fork_calls (snd (start_process cmd rl deps mem cpu s)) = fork_calls s
     \<and> processes (snd (start_process cmd rl deps mem cpu s)) = processes s
     \<and> process_count (snd (start_process cmd rl deps mem cpu s)) = process_count s"
  using assms by (simp add: start_process_def log_message_def)

text \<open>Witness for C3: \<^verbatim>\<open>/bin/b\<close> depending on \<^verbatim>\<open>/bin/a\<close>, on the empty table.\<close>

theorem start_process_dependencies_unmet_witness:
  "\<not> check_all_dependencies_active ''/bin/a'' init_world
   \<and> fst (start_process ''/bin/b'' 0 ''/bin/a'' 0 0 init_world) = Dependencies_unmet
   \<and> fork_calls (snd (start_process ''/bin/b'' 0 ''/bin/a'' 0 0 init_world)) = 0
   \<and> process_count (snd (start_process ''/bin/b'' 0 ''/bin/a'' 0 0 init_world)) = 0"
proof -
  have h: "\<not> check_all_dependencies_active ''/bin/a'' init_world"
    by code_simp
  have "\<not> process_count init_world \<ge> MAX_PROCESSES" "fork_calls init_world = 0"
    "process_count init_world = 0"
    by (simp_all add: init_world_def MAX_PROCESSES_def)
  with h start_process_dependencies_unmet [OF h, of "''/bin/b''" 0 0 0] show ?thesis
    by presburger
qed

text \<open>Counterexample to C3 as stated: on a full table a declaration with unmet
  dependencies leaves by the capacity failure.\<close>

theorem start_process_full_table_counterexample:
  "\<not> check_all_dependencies_active ''/bin/a'' full_world
   \<and> fst (start_process ''/bin/b'' 0 ''/bin/a'' 0 0 full_world) = Capacity_exceeded"
  by code_simp

subsection \<open>C4: the retry wrapper\<close>

text \<open>Claim C4 says that the wrapper returns success if and only if the process was started.
  The program returns \<^verbatim>\<open>true\<close> (commented \<^verbatim>\<open>Process started successfully\<close>) as soon as
  the dependency check passes, whatever \<^verbatim>\<open>start_process\<close> then does: with a failing
  \<^verbatim>\<open>fork\<close>, and with a full table, the wrapper returns \<^verbatim>\<open>true\<close> and no record has been
  added.\<close>

theorem start_process_with_retry_true_without_start:
  "fst (start_process_with_retry ''/bin/a'' 0 [] 0 0 3 fork_fails_world) = True
   \<and> fst (start_process ''/bin/a'' 0 [] 0 0 fork_fails_world) = Fork_failed
   \<and> process_count (snd (start_process_with_retry ''/bin/a'' 0 [] 0 0 3 fork_fails_world)) = 0
   \<and> fst (start_process_with_retry ''/bin/k'' 0 [] 0 0 3 full_world) = True
   \<and> fst (start_process ''/bin/k'' 0 [] 0 0 full_world) = Capacity_exceeded
   \<and> commands (snd (start_process_with_retry ''/bin/k'' 0 [] 0 0 3 full_world))
       = commands full_world"
  by code_simp

subsection \<open>C5: resource limits\<close>

text \<open>Claim C5, as amended: \<^verbatim>\<open>set_resource_limits\<close> writes the memory-limit file whenever
  that file can be opened, with the decimal text of the declared limit whatever its sign,
  and the CPU-quota file whenever that file can be opened, with the decimal text of the
  \<^verbatim>\<open>int\<close> product of the cpu percent and 10000; the product is exact for a percent of
  absolute value up to 214748.\<close>

theorem set_resource_limits_writes:
  "((memory_limit_path, text) \<in> set (set_resource_limits openable p mem cpu)
      \<longleftrightarrow> memory_limit_path \<in> set openable \<and> text = show_int mem)
   \<and> ((cpu_quota_path, text) \<in> set (set_resource_limits openable p mem cpu)
      \<longleftrightarrow> cpu_quota_path \<in> set openable \<and> text = show_int (c_int (cpu * 10000)))
   \<and> (- 214748 \<le> cpu \<and> cpu \<le> 214748 \<longrightarrow> c_int (cpu * 10000) = cpu * 10000)"
proof -
  have "- 214748 \<le> cpu \<and> cpu \<le> 214748 \<longrightarrow> c_int (cpu * 10000) = cpu * 10000"
    by (auto intro!: c_int_exact)
  then show ?thesis
    using cgroup_paths(4-6)
    by (auto simp: set_resource_limits_def write_file_def cgroup_paths(1-3))
qed

text \<open>Witness for C5: 20 percent is written as 200000.\<close>

theorem set_resource_limits_writes_witness:
  "(cpu_quota_path, ''200000'') \<in> set (set_resource_limits all_openable 42 67108864 20)"
proof -
  have a: "cpu_quota_path \<in> set all_openable" by (simp add: all_openable_def)
  have b: "- 214748 \<le> (20::int) \<and> (20::int) \<le> 214748" by simp
  have c: "show_int (20 * 10000) = ''200000''"
    by (simp add: show_int_def show_nat.simps digit_char_def)
  from set_resource_limits_writes [of "''200000''" all_openable 42 67108864 20] a b c
  show ?thesis by metis
qed

text \<open>Counterexample to C5 as stated: with both limits 0, the text \<^verbatim>\<open>0\<close> is written to
  the memory-limit file and to the CPU-quota file.\<close>

theorem set_resource_limits_zero_counterexample:
  "set_resource_limits all_openable 42 0 0
     = [(memory_limit_path, ''0''), (cpu_quota_path, ''0''), (cgroup_procs_path, ''42'')]"
  by code_simp

subsection \<open>C6: one record per command\<close>

text \<open>Claim C6, as amended: no operation looks for an existing record before it appends one,
  so two records in use can have the same command. What holds instead: a successful
  \<^verbatim>\<open>start_process\<close> with a command and a dependency string shorter than their buffers of
  256 bytes appends the command to the commands in use, which are therefore pairwise
  distinct afterwards if and only if they were before and the command was not among
  them; a start that fails, the handling of child exits and an invalid runlevel switch
  leave the commands in use as they were; a reload and a valid runlevel switch reseed
  from an empty table; and the reseeding of one line within bounds appends at most the
  command which that line holds for the current runlevel.\<close>

theorem commands_in_use:
  "(table_ok s \<and> length cmd < 256 \<and> length deps < 256
      \<and> fst (start_process cmd rl deps mem cpu s) = Started p \<longrightarrow>
      commands (snd (start_process cmd rl deps mem cpu s)) = commands s @ [cmd]
      \<and> (distinct (commands (snd (start_process cmd rl deps mem cpu s)))
           \<longleftrightarrow> distinct (commands s) \<and> cmd \<notin> set (commands s)))
   \<and> ((\<forall>q. fst (start_process cmd rl deps mem cpu s) \<noteq> Started q) \<longrightarrow>
        commands (snd (start_process cmd rl deps mem cpu s)) = commands s)
   \<and> commands (handle_signal sig children s) = commands s
   \<and> (\<exists>s0. commands s0 = [] \<and> reload_configuration s = init_processes s0)
   \<and> (0 \<le> n \<and> n < MAX_RUNLEVELS \<longrightarrow>
        (\<exists>s0. commands s0 = [] \<and> switch_runlevel n s = init_processes s0))
   \<and> (n < 0 \<or> MAX_RUNLEVELS \<le> n \<longrightarrow> commands (switch_runlevel n s) = commands s)
   \<and> (table_ok s \<and> line_in_bounds line \<longrightarrow>
        commands (init_line line s) = commands s
        \<or> (\<exists>c d m u. sscanf inittab_format line
               = [Item_int (current_runlevel s), Item_str c, Item_str d, Item_int m, Item_int u]
             \<and> commands (init_line line s) = commands s @ [c]))"
proof -
  have a: "commands (snd (start_process cmd rl deps mem cpu s)) = commands s @ [cmd]"
    if "table_ok s" "length cmd < 256" "fst (start_process cmd rl deps mem cpu s) = Started p"
    using start_process_table [of cmd rl deps mem cpu s] that
    by (auto simp: commands_def live_def table_ok_def live_append strncpy_fits)
  have b: "commands (snd (start_process cmd rl deps mem cpu s)) = commands s"
    if "\<forall>q. fst (start_process cmd rl deps mem cpu s) \<noteq> Started q"
    using start_process_table [of cmd rl deps mem cpu s] that
    by (auto simp: commands_def live_def)
  have c: "commands (handle_signal sig children s) = commands s"
    by (simp add: handle_signal_def commands_reap_all)
  have d: "\<exists>s0. commands s0 = [] \<and> reload_configuration s = init_processes s0"
    unfolding reload_configuration_def using commands_empty by blast
  have e: "\<exists>s0. commands s0 = [] \<and> switch_runlevel n s = init_processes s0"
    if "0 \<le> n" "n < MAX_RUNLEVELS"
    using that commands_empty unfolding switch_runlevel_def by auto
  have f: "commands (switch_runlevel n s) = commands s" if "n < 0 \<or> MAX_RUNLEVELS \<le> n"
    using that by (auto simp: switch_runlevel_def)
  have g: "commands (init_line line s) = commands s
        \<or> (\<exists>c d m u. sscanf inittab_format line
               = [Item_int (current_runlevel s), Item_str c, Item_str d, Item_int m, Item_int u]
             \<and> commands (init_line line s) = commands s @ [c])"
    if t: "table_ok s" and l: "line_in_bounds line"
  proof -
    from init_line_cases [of line s] consider "init_line line s = s"
      | rl c d m u where "sscanf inittab_format line
          = [Item_int rl, Item_str c, Item_str d, Item_int m, Item_int u]"
        "rl = current_runlevel s"
        "init_line line s = snd (start_process_with_retry c rl d m u 3 s)"
      by blast
    then show ?thesis
    proof cases
      case 1
      then show ?thesis by simp
    next
      case 2
      from line_in_bounds_fields [OF l 2(1)] have "length c < 256" by simp
      from retry_attempts_commands [OF t this, of "nat 3" rl d m u] 2 show ?thesis
        by (auto simp: start_process_with_retry_def)
    qed
  qed
  from a b c d e f g show ?thesis by auto
qed

text \<open>Witness for C6: \<^verbatim>\<open>/bin/b\<close> started beside \<^verbatim>\<open>/bin/a\<close>, and a start refused on the
  full table.\<close>

theorem commands_in_use_witness:
  "distinct (commands (snd (start_process ''/bin/b'' 0 [] 0 0 world_a)))
   \<and> commands (snd (start_process ''/bin/b'' 0 [] 0 0 full_world)) = commands full_world"
proof -
  have h: "table_ok world_a" "length ''/bin/b'' < 256" "length ([] :: string) < 256"
    "fst (start_process ''/bin/b'' 0 [] 0 0 world_a) = Started 101"
    "distinct (commands world_a)" "''/bin/b'' \<notin> set (commands world_a)"
    by code_simp+
  have "fst (start_process ''/bin/b'' 0 [] 0 0 full_world) = Capacity_exceeded"
    by code_simp
  then have k: "\<forall>q. fst (start_process ''/bin/b'' 0 [] 0 0 full_world) \<noteq> Started q"
    by simp
  from h commands_in_use [where s = world_a and cmd = "''/bin/b''" and rl = 0 and deps = "[]"
      and mem = 0 and cpu = 0 and p = 101]
  have "distinct (commands (snd (start_process ''/bin/b'' 0 [] 0 0 world_a)))"
    by blast
  moreover from k commands_in_use [where s = full_world and cmd = "''/bin/b''" and rl = 0
      and deps = "[]" and mem = 0 and cpu = 0]
  have "commands (snd (start_process ''/bin/b'' 0 [] 0 0 full_world)) = commands full_world"
    by blast
  ultimately show ?thesis by blast
qed

text \<open>Counterexample to C6 as stated: \<^verbatim>\<open>/bin/a\<close> is in use with pid 100 and is started a
  second time: the table holds two records of \<^verbatim>\<open>/bin/a\<close>.\<close>

theorem second_start_duplicates_command_counterexample:
  "commands (snd (start_process ''/bin/a'' 0 [] 0 0 world_a)) = [''/bin/a'', ''/bin/a'']"
  by code_simp

subsection \<open>C7: invalid runlevel\<close>

text \<open>Claim C7, as amended: for \<open>n < 0\<close> or \<open>n \<ge> MAX_RUNLEVELS\<close>, \<^verbatim>\<open>switch_runlevel\<close> logs
  the line \<^verbatim>\<open>Invalid runlevel\<close> at level \<^verbatim>\<open>ERROR\<close> and does nothing else: the current
  runlevel, the table and the count are unchanged, no signal is sent and \<^verbatim>\<open>fork\<close> is not
  called.\<close>

theorem switch_runlevel_invalid:
  assumes "n < 0 \<or> n \<ge> MAX_RUNLEVELS"
  shows "current_runlevel (switch_runlevel n s) = current_runlevel s
     \<and> processes (switch_runlevel n s) = processes s
     \<and> process_count (switch_runlevel n s) = process_count s
     \<and> audit_log (switch_runlevel n s) = audit_log s @ [(''ERROR'', ''Invalid runlevel'')]
     \<and> signals_sent (switch_runlevel n s) = signals_sent s
     \<and> fork_calls (switch_runlevel n s) = fork_calls s"
  using assms by (auto simp: switch_runlevel_def log_message_def)

text \<open>Witness for C7: runlevel 7.\<close>

theorem switch_runlevel_invalid_witness:
  "current_runlevel (switch_runlevel 7 world_a) = current_runlevel world_a
   \<and> processes (switch_runlevel 7 world_a) = processes world_a
   \<and> process_count (switch_runlevel 7 world_a) = process_count world_a"
proof -
  have "(7::int) < 0 \<or> 7 \<ge> MAX_RUNLEVELS" by (simp add: MAX_RUNLEVELS_def)
  from switch_runlevel_invalid [OF this, of world_a] show ?thesis by blast
qed

text \<open>Counterexample to C7 as stated: the one line logged for runlevel 5 has level
  \<^verbatim>\<open>ERROR\<close>, not \<^verbatim>\<open>WARN\<close>.\<close>

theorem switch_runlevel_invalid_counterexample:
  "audit_log (switch_runlevel 5 init_world) = [(''ERROR'', ''Invalid runlevel'')]"
  by code_simp

subsection \<open>C8: child exit\<close>

text \<open>Claim C8, as amended: when the kernel reports one terminated child with a positive pid,
  and no record in use has that pid, \<^verbatim>\<open>handle_signal\<close> changes nothing and logs nothing;
  otherwise the first record in use with that pid becomes inactive with state
  \<^verbatim>\<open>"stopped"\<close>, one \<^verbatim>\<open>INFO\<close> line is logged, and nothing else changes. The exit status
  is not read and not recorded.\<close>

theorem handle_signal_child_exit:
  "(0 < p \<and> (\<forall>r \<in> set (live s). pid r \<noteq> p) \<longrightarrow>
      handle_signal SIGCHLD [(p, status)] s = s)
   \<and> (0 < p \<and> i < length (live s) \<and> pid (live s ! i) = p \<and> (\<forall>j<i. pid (live s ! j) \<noteq> p) \<longrightarrow>
      handle_signal SIGCHLD [(p, status)] s
        = s\<lparr>processes := (processes s)[i := (processes s ! i)\<lparr>active := False,
                 state := ''stopped''\<rparr>],
             audit_log := audit_log s @
               [(''INFO'', snprintf 512 (''Process '' @ command (processes s ! i) @ '' (PID ''
                   @ show_int p @ '') finished''))]\<rparr>)"
proof -
  have a: "handle_signal SIGCHLD [(p, status)] s = s"
    if "0 < p" "\<forall>r \<in> set (live s). pid r \<noteq> p"
    using that find_first_eq_None [of "live s" "\<lambda>r. pid r = p"]
    by (simp add: handle_signal_def reap_def)
  have b: "handle_signal SIGCHLD [(p, status)] s
        = s\<lparr>processes := (processes s)[i := (processes s ! i)\<lparr>active := False,
                 state := ''stopped''\<rparr>],
             audit_log := audit_log s @
               [(''INFO'', snprintf 512 (''Process '' @ command (processes s ! i) @ '' (PID ''
                   @ show_int p @ '') finished''))]\<rparr>"
    if "0 < p" "i < length (live s)" "pid (live s ! i) = p" "\<forall>j<i. pid (live s ! j) \<noteq> p"
  proof -
    from that have "find_first (\<lambda>r. pid r = p) (live s) = Some i"
      by (intro find_first_eq_Some) auto
    with that(1) show ?thesis
      by (simp add: handle_signal_def reap_def log_message_def strncpy_def)
  qed
  from a b show ?thesis by blast
qed

text \<open>Witness for C8: the exit of pid 100, which \<^verbatim>\<open>/bin/a\<close> has, and of pid 55, which no
  record has.\<close>

theorem handle_signal_child_exit_witness:
  "processes (handle_signal SIGCHLD [(100, 0)] world_a)
     = (processes world_a)[0 := (processes world_a ! 0)\<lparr>active := False, state := ''stopped''\<rparr>]
   \<and> handle_signal SIGCHLD [(55, 0)] world_a = world_a"
proof -
  have h1: "(0::int) < 100 \<and> 0 < length (live world_a) \<and> pid (live world_a ! 0) = 100
      \<and> (\<forall>j<0::nat. pid (live world_a ! j) \<noteq> 100)"
    by code_simp
  have h2: "(0::int) < 55 \<and> (\<forall>r \<in> set (live world_a). pid r \<noteq> 55)"
    by code_simp
  from handle_signal_child_exit [of 100 world_a 0 0] h1
  have "handle_signal SIGCHLD [(100, 0)] world_a
        = world_a\<lparr>processes := (processes world_a)[0 := (processes world_a ! 0)\<lparr>active := False,
                 state := ''stopped''\<rparr>],
             audit_log := audit_log world_a @
               [(''INFO'', snprintf 512 (''Process '' @ command (processes world_a ! 0) @ '' (PID ''
                   @ show_int 100 @ '') finished''))]\<rparr>"
    by blast
  moreover from handle_signal_child_exit [of 55 world_a 0 0] h2
  have "handle_signal SIGCHLD [(55, 0)] world_a = world_a"
    by blast
  ultimately show ?thesis by simp
qed

text \<open>Counterexample to C8 as stated: the exits of pid 100 with status 3 and with status 0
  leave the same state, in which the record is \<^verbatim>\<open>"stopped"\<close>.\<close>

theorem child_exit_status_counterexample:
  "handle_signal SIGCHLD [(100, 3)] world_a = handle_signal SIGCHLD [(100, 0)] world_a
   \<and> state (processes (handle_signal SIGCHLD [(100, 3)] world_a) ! 0) = ''stopped''
   \<and> \<not> active (processes (handle_signal SIGCHLD [(100, 3)] world_a) ! 0)"
  by code_simp

subsection \<open>C9: a failed start changes nothing\<close>

text \<open>Claim C9: on each failure path of \<^verbatim>\<open>start_process\<close> (capacity exceeded, dependencies
  unmet, fork failure) the table and the count are exactly as before the call; they
  change only when the process has been started, and then by one record stored at the
  old count. The three failure paths are taken exactly under their conditions.\<close>

theorem start_process_atomic:
  "(fst (start_process cmd rl deps mem cpu s) \<in> {Capacity_exceeded, Dependencies_unmet, Fork_failed}
      \<longrightarrow> processes (snd (start_process cmd rl deps mem cpu s)) = processes s
        \<and> process_count (snd (start_process cmd rl deps mem cpu s)) = process_count s)
   \<and> ((processes (snd (start_process cmd rl deps mem cpu s)) \<noteq> processes s
        \<or> process_count (snd (start_process cmd rl deps mem cpu s)) \<noteq> process_count s)
      \<longrightarrow> (\<exists>p. fst (start_process cmd rl deps mem cpu s) = Started p \<and> 0 < p
            \<and> process_count s < MAX_PROCESSES
            \<and> check_all_dependencies_active deps s
            \<and> process_count (snd (start_process cmd rl deps mem cpu s)) = Suc (process_count s)
            \<and> processes (snd (start_process cmd rl deps mem cpu s))
                = (processes s)[process_count s := new_record p cmd rl deps mem cpu]))
   \<and> (fst (start_process cmd rl deps mem cpu s) = Capacity_exceeded
        \<longleftrightarrow> process_count s \<ge> MAX_PROCESSES)
   \<and> (fst (start_process cmd rl deps mem cpu s) = Dependencies_unmet
        \<longleftrightarrow> process_count s < MAX_PROCESSES \<and> \<not> check_all_dependencies_active deps s)
   \<and> (fst (start_process cmd rl deps mem cpu s) = Fork_failed
        \<longleftrightarrow> process_count s < MAX_PROCESSES \<and> check_all_dependencies_active deps s
            \<and> fst (fork s) < 0)"
proof -
  have "fst (start_process cmd rl deps mem cpu s) = Capacity_exceeded
        \<longleftrightarrow> process_count s \<ge> MAX_PROCESSES"
    by (auto simp: start_process_def split: prod.splits)
  moreover have "fst (start_process cmd rl deps mem cpu s) = Dependencies_unmet
        \<longleftrightarrow> process_count s < MAX_PROCESSES \<and> \<not> check_all_dependencies_active deps s"
    by (auto simp: start_process_def split: prod.splits)
  moreover have "fst (start_process cmd rl deps mem cpu s) = Fork_failed
        \<longleftrightarrow> process_count s < MAX_PROCESSES \<and> check_all_dependencies_active deps s
            \<and> fst (fork s) < 0"
    by (auto simp: start_process_def split: prod.splits)
  ultimately show ?thesis
    using start_process_table [of cmd rl deps mem cpu s] by auto
qed

text \<open>Witness for C9: a failing \<^verbatim>\<open>fork\<close>, and a start that changes the count.\<close>

theorem start_process_atomic_witness:
  "fst (start_process ''/bin/a'' 0 [] 0 0 fork_fails_world) = Fork_failed
   \<and> processes (snd (start_process ''/bin/a'' 0 [] 0 0 fork_fails_world))
       = processes fork_fails_world
   \<and> process_count (snd (start_process ''/bin/a'' 0 [] 0 0 fork_fails_world))
       = process_count fork_fails_world
   \<and> (\<exists>p. fst (start_process ''/bin/b'' 0 [] 0 0 world_a) = Started p)"
proof -
  have h: "fst (start_process ''/bin/a'' 0 [] 0 0 fork_fails_world) = Fork_failed"
    by code_simp
  have k: "process_count (snd (start_process ''/bin/b'' 0 [] 0 0 world_a))
      \<noteq> process_count world_a"
    by code_simp
  from h start_process_atomic [of "''/bin/a''" 0 "[]" 0 0 fork_fails_world]
  have "processes (snd (start_process ''/bin/a'' 0 [] 0 0 fork_fails_world))
       = processes fork_fails_world
     \<and> process_count (snd (start_process ''/bin/a'' 0 [] 0 0 fork_fails_world))
       = process_count fork_fails_world"
    by blast
  moreover from k start_process_atomic [of "''/bin/b''" 0 "[]" 0 0 world_a]
  have "\<exists>p. fst (start_process ''/bin/b'' 0 [] 0 0 world_a) = Started p"
    by blast
  ultimately show ?thesis using h by blast
qed

subsection \<open>C10: records belong to the current runlevel\<close>

text \<open>Claim C10, for tables and inittab files within the bounds of the program's buffers
  (the strings of the records in use shorter than their buffers, every inittab line
  converting only strings shorter than 256 characters and numbers in the range of
  \<^verbatim>\<open>int\<close>): if every record in use has the current runlevel, this is still so, and the
  bounds still hold, after any sequence of the supervisor's operations (boot, child exits,
  health checks, runlevel switches, reloads, shutdown, service management); all this
  holds initially; the handling of a line of the inittab preserves it, since a line is
  started only when its runlevel is the current one; and the only operation that changes
  the current runlevel is a valid runlevel switch, which reseeds from a table whose count
  has been reset to zero.\<close>

theorem runlevel_invariant:
  "(table_ok s \<and> strings_ok s \<and> inittab_in_bounds s \<and> runlevel_inv s \<longrightarrow>
      table_ok (run es s) \<and> strings_ok (run es s) \<and> inittab_in_bounds (run es s)
      \<and> runlevel_inv (run es s))
   \<and> table_ok init_world \<and> strings_ok init_world \<and> inittab_in_bounds init_world
   \<and> runlevel_inv init_world
   \<and> (table_ok s \<and> strings_ok s \<and> inittab_in_bounds s \<and> runlevel_inv s \<and> line_in_bounds line \<longrightarrow>
        runlevel_inv (init_line line s))
   \<and> (current_runlevel (handle e s) \<noteq> current_runlevel s \<longrightarrow>
        (\<exists>n s0. e = Runlevel_switch n \<and> 0 \<le> n \<and> n < MAX_RUNLEVELS \<and> process_count s0 = 0
           \<and> current_runlevel s0 = n \<and> handle e s = init_processes s0))"
proof -
  have "table_ok init_world \<and> strings_ok init_world \<and> inittab_in_bounds init_world
      \<and> runlevel_inv init_world"
    by (simp add: table_ok_def runlevel_inv_def strings_ok_def inittab_in_bounds_def live_def
        init_world_def)
  moreover have "table_ok s \<and> strings_ok s \<and> inittab_in_bounds s \<and> runlevel_inv s \<longrightarrow>
      table_ok (run es s) \<and> strings_ok (run es s) \<and> inittab_in_bounds (run es s)
      \<and> runlevel_inv (run es s)"
    using run_consistent [of s es] by (simp add: consistent_def)
  moreover have "table_ok s \<and> strings_ok s \<and> inittab_in_bounds s \<and> runlevel_inv s
      \<and> line_in_bounds line \<longrightarrow> runlevel_inv (init_line line s)"
    using init_line_consistent [of s line] by (simp add: consistent_def)
  ultimately show ?thesis
    using handle_runlevel_change [of e s] by blast
qed

text \<open>Witness for C10: from the table in which \<^verbatim>\<open>/bin/a\<close> runs, with the example line in
  the inittab: boot, the exit of the child, a health check, a stop request and an invalid
  switch. Two records are in use at the end, both of runlevel 0. And the handling of a
  string that the format converts in full, which starts \<^verbatim>\<open>/bin/b\<close> at runlevel 0.\<close>

theorem runlevel_invariant_witness:
  "runlevel_inv
     (run [Boot, Child_exit [(100, 0)], Health_tick, Manage [''manage'', ''stop'', ''/bin/a''],
           Runlevel_switch 7] booting_world)
   \<and> map runlevel
       (live (run [Boot, Child_exit [(100, 0)], Health_tick,
                   Manage [''manage'', ''stop'', ''/bin/a''], Runlevel_switch 7] booting_world))
      = [0, 0]
   \<and> runlevel_inv (init_line split_line booting_world)
   \<and> commands (init_line split_line booting_world) = [''/bin/a'', ''/bin/b'']"
proof -
  have h: "table_ok booting_world \<and> strings_ok booting_world \<and> inittab_in_bounds booting_world
      \<and> runlevel_inv booting_world"
    by code_simp
  have l: "line_in_bounds split_line"
    by code_simp
  from h runlevel_invariant
    [of booting_world "[Boot, Child_exit [(100, 0)], Health_tick,
        Manage [''manage'', ''stop'', ''/bin/a''], Runlevel_switch 7]"]
  have "runlevel_inv
     (run [Boot, Child_exit [(100, 0)], Health_tick, Manage [''manage'', ''stop'', ''/bin/a''],
           Runlevel_switch 7] booting_world)"
    by blast
  moreover from h l runlevel_invariant [of booting_world _ split_line]
  have "runlevel_inv (init_line split_line booting_world)"
    by blast
  moreover have "map runlevel
       (live (run [Boot, Child_exit [(100, 0)], Health_tick,
                   Manage [''manage'', ''stop'', ''/bin/a''], Runlevel_switch 7] booting_world))
      = [0, 0]"
    by code_simp
  moreover have "commands (init_line split_line booting_world) = [''/bin/a'', ''/bin/b'']"
    by code_simp
  ultimately show ?thesis by blast
qed

end
